theory Spec2Isabelle
  imports Main "HOL-Library.Word"
begin

unbundle bit_operations_syntax

section \<open>Go values\<close>

text \<open>
  A Go \<^verbatim>\<open>byte\<close> is an 8-bit word and a \<^verbatim>\<open>[]byte\<close> a list of them. A Go
  \<^verbatim>\<open>string\<close> is a sequence of bytes as well (\<^verbatim>\<open>len\<close> counts bytes), which is what
  Isabelle's \<open>string\<close> is. A nil slice and an empty slice both have length 0 and the
  same contents; the model identifies them as \<open>[]\<close>.

  Go's \<^verbatim>\<open>int\<close> is a 64-bit signed integer; it is modelled as \<open>int\<close>. In the functions
  below every sum of two \<^verbatim>\<open>int\<close>s is bounded by twice the length of a slice held in
  memory, so no addition wraps around.
\<close>

type_synonym byte = "8 word"

definition bytes_of_string :: "string \<Rightarrow> byte list" where
  \<comment> \<open>the conversion \<^verbatim>\<open>[]byte(s)\<close>\<close>
  "bytes_of_string s = map of_char s"

definition len :: "'a list \<Rightarrow> int" where
  "len xs = int (length xs)"

text \<open>
  The slice expression \<^verbatim>\<open>s[lo:hi]\<close>. Go panics unless \<open>0 \<le> lo \<le> hi \<le> len s\<close>
  (for a byte slice the upper limit is the capacity, which is at least the length; the
  model uses the length, the stricter check). \<open>None\<close> is the panic.
\<close>

definition slice :: "'a list \<Rightarrow> int \<Rightarrow> int \<Rightarrow> 'a list option" where
  "slice s lo hi =
     (if 0 \<le> lo \<and> lo \<le> hi \<and> hi \<le> len s
      then Some (take (nat (hi - lo)) (drop (nat lo) s))
      else None)"

section \<open>Package utils: splitting and joining\<close>

text \<open>
  \<^verbatim>\<open>
  func SplitData(data []byte, chunkSize int) [][]byte {
      if chunkSize <= 0 {
          return [][]byte{data}
      }
      var chunks [][]byte
      for i := 0; i < len(data); i += chunkSize {
          end := i + chunkSize
          if end > len(data) {
              end = len(data)
          }
          chunks = append(chunks, data[i:end])
      }
      return chunks
  }
  \<close>
  The loop is a recursive function of the loop variable \<open>i\<close> and of \<open>chunks\<close>. Nothing in
  the loop itself says that it ends, so it is a partial function: \<open>None\<close> is a run that
  returns no value (a loop that never ends, or a panic of the slice expression).
\<close>

partial_function (option) SplitData_loop ::
  "byte list \<Rightarrow> int \<Rightarrow> int \<Rightarrow> byte list list \<Rightarrow> byte list list option" where
  "SplitData_loop data chunkSize i chunks =
     (if i < len data then
        (let end = i + chunkSize;
             end = (if end > len data then len data else end)
         in case slice data i end of
              None \<Rightarrow> None
            | Some c \<Rightarrow> SplitData_loop data chunkSize (i + chunkSize) (chunks @ [c]))
      else Some chunks)"

declare SplitData_loop.simps [code]

definition SplitData :: "byte list \<Rightarrow> int \<Rightarrow> byte list list option" where
  "SplitData data chunkSize =
     (if chunkSize \<le> 0 then Some [data]
      else SplitData_loop data chunkSize 0 [])"

text \<open>
  \<^verbatim>\<open>
  func JoinChunks(chunks [][]byte) []byte {
      var result []byte
      for _, chunk := range chunks {
          result = append(result, chunk...)
      }
      return result
  }
  \<close>
\<close>

definition JoinChunks :: "byte list list \<Rightarrow> byte list" where
  "JoinChunks chunks = foldl (\<lambda>result chunk. result @ chunk) [] chunks"

section \<open>Package utils: storage paths\<close>

text \<open>
  \<^verbatim>\<open>filepath.Join\<close> of the Go standard library, as it is on Linux, the platform the
  repository builds for: the elements from the first non-empty one on are joined with
  the separator \<^verbatim>\<open>/\<close> and the result is cleaned by \<^verbatim>\<open>filepath.Clean\<close>.
\<close>

definition strings_Join :: "string list \<Rightarrow> string \<Rightarrow> string" where
  "strings_Join elems sep =
     (case elems of [] \<Rightarrow> [] | e # es \<Rightarrow> e @ concat (map (\<lambda>x. sep @ x) es))"

definition IsPathSeparator :: "char \<Rightarrow> bool" where
  "IsPathSeparator c = (c = CHR ''/'')"

text \<open>
  \<^verbatim>\<open>Clean\<close> reads the path from left to right and writes to an output buffer: \<open>out\<close>
  is what has been written, \<open>dotdot\<close> the index in \<open>out\<close> where a \<^verbatim>\<open>..\<close> element must
  stop backtracking. \<open>Clean_backtrack\<close> is the inner loop that moves the write index
  \<open>w\<close> back to the last separator.
\<close>

function Clean_backtrack :: "string \<Rightarrow> nat \<Rightarrow> nat \<Rightarrow> nat" where
  "Clean_backtrack out dotdot w =
     (if w > dotdot \<and> \<not> IsPathSeparator (out ! w)
      then Clean_backtrack out dotdot (w - 1) else w)"
  by pat_completeness auto
termination
  by (relation "measure (\<lambda>(out, dotdot, w). w)") auto

declare Clean_backtrack.simps [simp del]

function Clean_loop :: "bool \<Rightarrow> string \<Rightarrow> string \<Rightarrow> nat \<Rightarrow> string" where
  "Clean_loop rooted [] out dotdot = out"
| "Clean_loop rooted (c # rest) out dotdot =
     (if IsPathSeparator c then \<comment> \<open>empty path element\<close>
        Clean_loop rooted rest out dotdot
      else if c = CHR ''.'' \<and> (rest = [] \<or> IsPathSeparator (hd rest)) then \<comment> \<open>\<^verbatim>\<open>.\<close> element\<close>
        Clean_loop rooted rest out dotdot
      else if c = CHR ''.'' \<and> hd rest = CHR ''.'' \<and>
              (tl rest = [] \<or> IsPathSeparator (hd (tl rest))) then \<comment> \<open>\<^verbatim>\<open>..\<close> element\<close>
        (if length out > dotdot then \<comment> \<open>can backtrack\<close>
           Clean_loop rooted (tl rest)
             (take (Clean_backtrack out dotdot (length out - 1)) out) dotdot
         else if \<not> rooted then \<comment> \<open>cannot backtrack, but not rooted: append \<^verbatim>\<open>..\<close>\<close>
           (let out' = (if length out > 0 then out @ ''/'' else out) @ ''..''
            in Clean_loop rooted (tl rest) out' (length out'))
         else Clean_loop rooted (tl rest) out dotdot)
      else \<comment> \<open>real path element: add a slash if needed, copy the element\<close>
        (let out' = (if rooted \<and> length out \<noteq> 1 \<or> \<not> rooted \<and> length out \<noteq> 0
                     then out @ ''/'' else out)
         in Clean_loop rooted (dropWhile (\<lambda>x. \<not> IsPathSeparator x) (c # rest))
              (out' @ takeWhile (\<lambda>x. \<not> IsPathSeparator x) (c # rest)) dotdot))"
  by pat_completeness auto
termination
proof (relation "measure (\<lambda>(rooted, p, out, dotdot). length p)", goal_cases)
  case 1
  show ?case by simp
next
  case (2 c rest)
  show ?case by simp
next
  case (3 c rest)
  show ?case by simp
next
  case (4 c rest)
  show ?case by (cases rest) simp_all
next
  case (5 c rest)
  show ?case by (cases rest) simp_all
next
  case (6 c rest)
  show ?case by (cases rest) simp_all
next
  case (7 c rest)
  then show ?case
    by (simp add: le_imp_less_Suc length_dropWhile_le)
qed

declare Clean_loop.simps [simp del]

definition Clean :: "string \<Rightarrow> string" where
  "Clean path =
     (if path = [] then ''.''
      else
        (let rooted = IsPathSeparator (hd path);
             out = (if rooted then Clean_loop True (tl path) ''/'' 1
                    else Clean_loop False path [] 0)
         in if out = [] then ''.'' else out))"

fun filepath_Join :: "string list \<Rightarrow> string" where
  "filepath_Join [] = []"
| "filepath_Join (e # elem) =
     (if e \<noteq> [] then Clean (strings_Join (e # elem) ''/'') else filepath_Join elem)"

text \<open>
  \<^verbatim>\<open>
  func GetStoragePath(baseDir, fileID string) string {
      // Create subdirectories based on first 2 characters of file ID
      // to avoid too many files in a single directory
      subDir := fileID[:2]
      return filepath.Join(baseDir, subDir, fileID)
  }
  \<close>
  The slice expression panics when \<open>fileID\<close> has fewer than two bytes; \<open>None\<close> is that
  panic.
\<close>

definition GetStoragePath :: "string \<Rightarrow> string \<Rightarrow> string option" where
  "GetStoragePath baseDir fileID =
     (case slice fileID 0 2 of
        None \<Rightarrow> None
      | Some subDir \<Rightarrow> Some (filepath_Join [baseDir, subDir, fileID]))"

section \<open>Auxiliary functions of the proofs\<close>

text \<open>
  \<open>chunks_of n xs\<close> cuts \<open>xs\<close> into consecutive pieces of \<open>n\<close> elements, the last one
  shorter when the length is not a multiple of \<open>n\<close>. It is the value the loop of
  \<^verbatim>\<open>SplitData\<close> is shown to compute, and is used in the proofs only.
\<close>

function chunks_of :: "nat \<Rightarrow> 'a list \<Rightarrow> 'a list list" where
  "chunks_of n xs = (if n = 0 \<or> xs = [] then [] else take n xs # chunks_of n (drop n xs))"
  by pat_completeness auto
termination
  by (relation "measure (\<lambda>(n, xs). length xs)") auto

declare chunks_of.simps [simp del]

section \<open>Properties of splitting and joining\<close>

lemma chunks_of_Nil [simp]: "chunks_of n [] = []"
  by (subst chunks_of.simps) simp

lemma chunks_of_Cons:
  "0 < n \<Longrightarrow> xs \<noteq> [] \<Longrightarrow> chunks_of n xs = take n xs # chunks_of n (drop n xs)"
  by (subst chunks_of.simps) simp

lemma concat_chunks_of: "0 < n \<Longrightarrow> concat (chunks_of n xs) = xs"
proof (induction n xs rule: chunks_of.induct)
  case (1 n xs)
  then show ?case by (subst chunks_of.simps) auto
qed

lemma length_chunks_of: "0 < n \<Longrightarrow> length (chunks_of n xs) = (length xs + n - 1) div n"
proof (induction n xs rule: chunks_of.induct)
  case (1 n xs)
  show ?case
  proof (cases "xs = []")
    case True
    then show ?thesis using "1.prems" by simp
  next
    case False
    have ih: "length (chunks_of n (drop n xs)) = (length xs - n + n - 1) div n"
      using "1.IH" "1.prems" False by simp
    show ?thesis
    proof (cases "n \<le> length xs")
      case True
      have "(length xs + n - 1) div n = (length xs - 1 + n) div n"
        using False by (cases xs) simp_all
      also have "\<dots> = (length xs - 1) div n + 1"
      proof -
        have "n \<noteq> 0" using "1.prems" by simp
        then show ?thesis by (rule div_add_self2)
      qed
      finally show ?thesis using ih True False "1.prems" by (simp add: chunks_of_Cons)
    next
      case le: False
      obtain m where m: "length xs = Suc m" using False by (cases xs) auto
      have "(length xs + n - 1) div n = 1"
        using le "1.prems" m by (intro div_nat_eqI) simp_all
      then show ?thesis using le False "1.prems" by (simp add: chunks_of_Cons)
    qed
  qed
qed

lemma nth_chunks_of:
  "0 < n \<Longrightarrow> k < length (chunks_of n xs) \<Longrightarrow> chunks_of n xs ! k = take n (drop (k * n) xs)"
proof (induction n xs arbitrary: k rule: chunks_of.induct)
  case (1 n xs)
  have ne: "xs \<noteq> []" using "1.prems" by auto
  show ?case
  proof (cases k)
    case 0
    then show ?thesis using ne "1.prems" by (simp add: chunks_of_Cons)
  next
    case (Suc j)
    then have "j < length (chunks_of n (drop n xs))"
      using "1.prems" ne by (simp add: chunks_of_Cons)
    then have "chunks_of n (drop n xs) ! j = take n (drop (j * n) (drop n xs))"
      using "1.IH" "1.prems" ne by simp
    then show ?thesis using Suc ne "1.prems" by (simp add: chunks_of_Cons add.commute)
  qed
qed

lemma chunks_of_index_bound:
  assumes n: "0 < n" and k: "k < length (chunks_of n xs)"
  shows "k * n < length xs"
proof -
  have "k < (length xs + n - 1) div n" using n k by (simp add: length_chunks_of)
  then have "Suc k * n \<le> length xs + n - 1"
    using n by (metis Suc_leI less_eq_div_iff_mult_less_eq)
  then show ?thesis using n by simp
qed

lemma chunks_of_full:
  assumes n: "0 < n" and k: "Suc k < length (chunks_of n xs)"
  shows "length (chunks_of n xs ! k) = n"
proof -
  have "Suc k * n < length xs" using chunks_of_index_bound [OF n k] .
  then show ?thesis using n k by (simp add: nth_chunks_of)
qed

lemma chunks_of_last:
  assumes "0 < n" "xs \<noteq> []"
  shows "1 \<le> length (last (chunks_of n xs)) \<and> length (last (chunks_of n xs)) \<le> n"
proof -
  have ne: "chunks_of n xs \<noteq> []" using assms by (simp add: chunks_of_Cons)
  define k where "k = length (chunks_of n xs) - 1"
  have k: "k < length (chunks_of n xs)" using ne by (simp add: k_def)
  have "last (chunks_of n xs) = chunks_of n xs ! k" using ne by (simp add: last_conv_nth k_def)
  also have "\<dots> = take n (drop (k * n) xs)" using assms k by (simp add: nth_chunks_of)
  finally show ?thesis using chunks_of_index_bound [OF assms(1) k] assms(1) by simp
qed

text \<open>
  The loop, started at any index \<open>i \<ge> 0\<close> with a positive chunk size, returns: it appends
  the pieces of the rest of the data. The proof is by induction on the number of bytes
  left, \<open>length data - i\<close>, which every iteration decreases.
\<close>

lemma SplitData_loop_chunks_of:
  assumes "0 < cs" "0 \<le> i"
  shows "SplitData_loop data cs i chunks = Some (chunks @ chunks_of (nat cs) (drop (nat i) data))"
  using assms(2)
proof (induction "length data - nat i" arbitrary: i chunks rule: less_induct)
  case less
  show ?case
  proof (cases "i < len data")
    case False
    then have "drop (nat i) data = []" using less.prems by (simp add: len_def)
    then show ?thesis using False
      by (subst SplitData_loop.simps) simp
  next
    case True
    define e where "e = (if i + cs > len data then len data else i + cs)"
    have e: "i \<le> e" "e \<le> len data" using True assms(1) by (auto simp: e_def)
    have sl: "slice data i e = Some (take (nat cs) (drop (nat i) data))"
      using e less.prems True assms(1) unfolding slice_def e_def len_def
      by (auto simp: nat_diff_distrib nat_add_distrib min_def)
    have ne: "drop (nat i) data \<noteq> []" using True less.prems by (simp add: len_def)
    have step: "SplitData_loop data cs (i + cs) (chunks @ [take (nat cs) (drop (nat i) data)])
        = Some ((chunks @ [take (nat cs) (drop (nat i) data)])
                  @ chunks_of (nat cs) (drop (nat (i + cs)) data))"
      using True less.prems assms(1)
      by (intro less.hyps) (auto simp: len_def)
    have "chunks_of (nat cs) (drop (nat i) data)
        = take (nat cs) (drop (nat i) data) # chunks_of (nat cs) (drop (nat (i + cs)) data)"
      using ne assms(1) less.prems
      by (subst chunks_of.simps) (simp add: nat_add_distrib add.commute)
    then show ?thesis using True sl step
      by (subst SplitData_loop.simps) (simp add: e_def Let_def)
  qed
qed

lemma SplitData_pos: "0 < n \<Longrightarrow> SplitData data n = Some (chunks_of (nat n) data)"
  by (simp add: SplitData_def SplitData_loop_chunks_of)

lemma JoinChunks_concat: "JoinChunks chunks = concat chunks"
proof -
  have "foldl (\<lambda>result chunk. result @ chunk) acc chunks = acc @ concat chunks" for acc
    by (induction chunks arbitrary: acc) auto
  then show ?thesis by (simp add: JoinChunks_def)
qed

text \<open>
  Claim C1. For every byte string \<open>data\<close> and every integer \<open>n > 0\<close>, \<^verbatim>\<open>SplitData\<close>
  returns and \<^verbatim>\<open>JoinChunks\<close> of its result is \<open>data\<close> again: joining is the exact inverse
  of splitting, whatever the length of \<open>data\<close> (empty, or not a multiple of \<open>n\<close>).
\<close>

theorem C1_JoinChunks_SplitData:
  "0 < n \<Longrightarrow> map_option JoinChunks (SplitData data n) = Some data"
  by (simp add: SplitData_pos JoinChunks_concat concat_chunks_of)

theorem C1_JoinChunks_SplitData_witness:
  "(0::int) < 3 \<and>
   map_option JoinChunks (SplitData (bytes_of_string ''0123456789'') 3)
     = Some (bytes_of_string ''0123456789'')"
  using C1_JoinChunks_SplitData [of 3 "bytes_of_string ''0123456789''"] by simp

text \<open>
  Claim C3, as the code has it. When \<open>chunkSize \<le> 0\<close>, \<^verbatim>\<open>SplitData\<close> returns the whole
  input as a single segment, for every input (the empty input then gives one empty
  segment). When \<open>chunkSize > 0\<close>, the empty input gives no segment at all: the loop body
  never runs and the empty sequence is returned.
\<close>

theorem C3_SplitData_edge_cases:
  "(chunkSize \<le> 0 \<longrightarrow> SplitData data chunkSize = Some [data]) \<and>
   (0 < chunkSize \<longrightarrow> SplitData [] chunkSize = Some [])"
proof (intro conjI impI)
  assume "chunkSize \<le> 0"
  then show "SplitData data chunkSize = Some [data]" by (simp add: SplitData_def)
next
  assume "0 < chunkSize"
  then show "SplitData [] chunkSize = Some []" by (simp add: SplitData_pos)
qed

theorem C3_SplitData_edge_cases_witness:
  "(0::int) \<le> 0 \<and> SplitData [1, 2, 3] 0 = Some [[1, 2, 3]] \<and>
   (0::int) < 3 \<and> SplitData [] 3 = Some []"
  using C3_SplitData_edge_cases [of 0 "[1, 2, 3]"] C3_SplitData_edge_cases [of 3 "[]"]
  by simp

text \<open>
  The claim as the specification states it (one empty segment for the empty input and a
  positive chunk size) fails: with chunk size 3 the empty input gives the empty sequence,
  not the sequence holding one empty segment.
\<close>

theorem C3_empty_input_counterexample:
  "SplitData [] 3 = Some [] \<and> SplitData [] 3 \<noteq> Some [[]]"
  by (simp add: SplitData_pos)

text \<open>
  Claim C4. For every non-empty \<open>data\<close> and every \<open>chunkSize > 0\<close>, \<^verbatim>\<open>SplitData\<close> returns
  the contiguous slices of \<open>data\<close> in order: there are \<open>\<lceil>length data / chunkSize\<rceil>\<close> of
  them, the \<open>k\<close>-th is the \<open>chunkSize\<close> bytes from offset \<open>k * chunkSize\<close> (fewer at the
  end of the data), every slice but the last has exactly \<open>chunkSize\<close> bytes and the last
  has between 1 and \<open>chunkSize\<close>. In particular the ten bytes \<^verbatim>\<open>0123456789\<close> with chunk
  size 3 give \<^verbatim>\<open>012\<close>, \<^verbatim>\<open>345\<close>, \<^verbatim>\<open>678\<close>, \<^verbatim>\<open>9\<close>, of sizes 3, 3, 3, 1.
\<close>

theorem C4_SplitData_slices:
  assumes "data \<noteq> []" and "0 < chunkSize"
  shows "(\<exists>chunks. SplitData data chunkSize = Some chunks \<and>
           length chunks = (length data + nat chunkSize - 1) div nat chunkSize \<and>
           (\<forall>k < length chunks.
              chunks ! k = take (nat chunkSize) (drop (k * nat chunkSize) data)) \<and>
           (\<forall>k. Suc k < length chunks \<longrightarrow> length (chunks ! k) = nat chunkSize) \<and>
           1 \<le> length (last chunks) \<and> length (last chunks) \<le> nat chunkSize) \<and>
         SplitData (bytes_of_string ''0123456789'') 3
           = Some (map bytes_of_string [''012'', ''345'', ''678'', ''9'']) \<and>
         map length [''012'', ''345'', ''678'', ''9''] = [3, 3, 3, 1]"
proof -
  have n: "0 < nat chunkSize" using assms(2) by simp
  have "SplitData data chunkSize = Some (chunks_of (nat chunkSize) data)"
    using assms(2) by (rule SplitData_pos)
  moreover have "length (chunks_of (nat chunkSize) data)
      = (length data + nat chunkSize - 1) div nat chunkSize"
    using n by (rule length_chunks_of)
  moreover have "\<forall>k < length (chunks_of (nat chunkSize) data).
      chunks_of (nat chunkSize) data ! k = take (nat chunkSize) (drop (k * nat chunkSize) data)"
    using n by (simp add: nth_chunks_of)
  moreover have "\<forall>k. Suc k < length (chunks_of (nat chunkSize) data) \<longrightarrow>
      length (chunks_of (nat chunkSize) data ! k) = nat chunkSize"
    using n by (simp add: chunks_of_full)
  moreover have "1 \<le> length (last (chunks_of (nat chunkSize) data)) \<and>
      length (last (chunks_of (nat chunkSize) data)) \<le> nat chunkSize"
    using n assms(1) by (rule chunks_of_last)
  moreover have "SplitData (bytes_of_string ''0123456789'') 3
      = Some (map bytes_of_string [''012'', ''345'', ''678'', ''9''])"
    by code_simp
  ultimately show ?thesis by simp
qed

theorem C4_SplitData_slices_witness:
  "bytes_of_string ''0123456789'' \<noteq> [] \<and> (0::int) < 3 \<and>
   (\<exists>chunks. SplitData (bytes_of_string ''0123456789'') 3 = Some chunks \<and>
      length chunks = (length (bytes_of_string ''0123456789'') + nat 3 - 1) div nat 3 \<and>
      (\<forall>k < length chunks.
         chunks ! k = take (nat 3) (drop (k * nat 3) (bytes_of_string ''0123456789''))) \<and>
      (\<forall>k. Suc k < length chunks \<longrightarrow> length (chunks ! k) = nat 3) \<and>
      1 \<le> length (last chunks) \<and> length (last chunks) \<le> nat 3)"
proof -
  have h1: "bytes_of_string ''0123456789'' \<noteq> []" by (simp add: bytes_of_string_def)
  have h2: "(0::int) < 3" by simp
  from C4_SplitData_slices [OF h1 h2] have
    "\<exists>chunks. SplitData (bytes_of_string ''0123456789'') 3 = Some chunks \<and>
      length chunks = (length (bytes_of_string ''0123456789'') + nat 3 - 1) div nat 3 \<and>
      (\<forall>k < length chunks.
         chunks ! k = take (nat 3) (drop (k * nat 3) (bytes_of_string ''0123456789''))) \<and>
      (\<forall>k. Suc k < length chunks \<longrightarrow> length (chunks ! k) = nat 3) \<and>
      1 \<le> length (last chunks) \<and> length (last chunks) \<le> nat 3"
    by (rule conjunct1)
  with h1 h2 show ?thesis by (intro conjI)
qed

section \<open>Properties of the storage path\<close>

lemma slice_prefix: "slice s 0 2 = (if 2 \<le> length s then Some (take 2 s) else None)"
  by (simp add: slice_def len_def)

text \<open>
  Claim C9. For every \<open>baseDir\<close> and every \<open>id\<close> of at least two characters,
  \<^verbatim>\<open>GetStoragePath\<close> returns the path join of \<open>baseDir\<close>, the subdirectory named by the
  first two characters of \<open>id\<close>, and \<open>id\<close> itself.
\<close>

theorem C9_GetStoragePath_layout:
  "2 \<le> length fileID \<Longrightarrow>
   GetStoragePath baseDir fileID = Some (filepath_Join [baseDir, take 2 fileID, fileID])"
  by (simp add: GetStoragePath_def slice_prefix)

theorem C9_GetStoragePath_layout_witness:
  "2 \<le> length ''abcdef1234567890'' \<and>
   GetStoragePath ''/storage'' ''abcdef1234567890'' = Some ''/storage/ab/abcdef1234567890'' \<and>
   filepath_Join [''/storage'', take 2 ''abcdef1234567890'', ''abcdef1234567890'']
     = ''/storage/ab/abcdef1234567890''"
proof -
  have h: "2 \<le> length ''abcdef1234567890''" by simp
  have j: "filepath_Join [''/storage'', take 2 ''abcdef1234567890'', ''abcdef1234567890'']
      = ''/storage/ab/abcdef1234567890''"
    by code_simp
  from C9_GetStoragePath_layout [OF h, of "''/storage''"] j h show ?thesis by simp
qed

text \<open>
  Claim C10. \<^verbatim>\<open>GetStoragePath\<close> is partial: it panics on the slice \<^verbatim>\<open>fileID[:2]\<close>, and
  so returns no path, exactly when \<open>fileID\<close> has fewer than two characters, as the
  empty string has. The precondition \<open>length fileID \<ge> 2\<close> is what makes it return.
\<close>

theorem C10_GetStoragePath_partial:
  "(GetStoragePath baseDir fileID = None \<longleftrightarrow> length fileID < 2) \<and>
   ((\<exists>path. GetStoragePath baseDir fileID = Some path) \<longleftrightarrow> 2 \<le> length fileID) \<and>
   GetStoragePath baseDir [] = None"
  by (auto simp add: GetStoragePath_def slice_prefix)

theorem C10_GetStoragePath_partial_witness:
  "GetStoragePath ''/storage'' [] = None \<and> GetStoragePath ''/storage'' ''a'' = None \<and>
   (\<exists>path. GetStoragePath ''/storage'' ''ab'' = Some path)"
  using C10_GetStoragePath_partial [of "''/storage''" "[]"]
    C10_GetStoragePath_partial [of "''/storage''" "''a''"]
    C10_GetStoragePath_partial [of "''/storage''" "''ab''"]
  by simp

end
